theory Spec2Isabelle
  imports Main "HOL-Library.Sublist" "HOL-Library.Multiset"
begin

section \<open>Mira: target validation and mode dispatch\<close>

text \<open>
  The program is a command-line reconnaissance tool written in Python. This theory embeds
  the parts of \<^verbatim>\<open>_mira_.py\<close> that validate the target, dispatch one scan mode,
  extract directory links from a page and probe subdomains with a pool of threads.
  Python strings are \<^typ>\<open>string\<close>; a raised exception is the left summand of a sum type.
\<close>

subsection \<open>The target pattern\<close>

text \<open>
  \<^verbatim>\<open>re.compile(r"^(https?://)?(www\.)?([a-zA-Z0-9-]+(\.[a-zA-Z]{2,})+)$")\<close>
  is a regular expression without back-references, so whether it matches is a question
  of language membership. The pattern is written as a term of a small regular-expression
  datatype and matched with derivatives.
\<close>

datatype rexp =
    Zero
  | One
  | Atom "char \<Rightarrow> bool"
  | Alt rexp rexp
  | Seq rexp rexp
  | Star rexp

fun nullable :: "rexp \<Rightarrow> bool" where
  "nullable Zero = False"
| "nullable One = True"
| "nullable (Atom p) = False"
| "nullable (Alt r s) = (nullable r \<or> nullable s)"
| "nullable (Seq r s) = (nullable r \<and> nullable s)"
| "nullable (Star r) = True"

fun deriv :: "char \<Rightarrow> rexp \<Rightarrow> rexp" where
  "deriv c Zero = Zero"
| "deriv c One = Zero"
| "deriv c (Atom p) = (if p c then One else Zero)"
| "deriv c (Alt r s) = Alt (deriv c r) (deriv c s)"
| "deriv c (Seq r s) =
     (if nullable r then Alt (Seq (deriv c r) s) (deriv c s) else Seq (deriv c r) s)"
| "deriv c (Star r) = Seq (deriv c r) (Star r)"

fun in_lang :: "rexp \<Rightarrow> string \<Rightarrow> bool" where
  "in_lang r [] = nullable r"
| "in_lang r (c # cs) = in_lang (deriv c r) cs"

definition Opt :: "rexp \<Rightarrow> rexp" where
  "Opt r = Alt One r"

definition Plus1 :: "rexp \<Rightarrow> rexp" where
  "Plus1 r = Seq r (Star r)"

definition Chr :: "char \<Rightarrow> rexp" where
  "Chr c = Atom (\<lambda>x. x = c)"

fun Lit :: "string \<Rightarrow> rexp" where
  "Lit [] = One"
| "Lit (c # cs) = Seq (Chr c) (Lit cs)"

definition in_range :: "char \<Rightarrow> char \<Rightarrow> char \<Rightarrow> bool" where
  "in_range lo hi c = ((of_char lo :: nat) \<le> of_char c \<and> (of_char c :: nat) \<le> of_char hi)"

definition is_alpha :: "char \<Rightarrow> bool" where
  \<comment> \<open>\<^verbatim>\<open>[a-zA-Z]\<close>\<close>
  "is_alpha c = (in_range CHR ''a'' CHR ''z'' c \<or> in_range CHR ''A'' CHR ''Z'' c)"

definition is_label_char :: "char \<Rightarrow> bool" where
  \<comment> \<open>\<^verbatim>\<open>[a-zA-Z0-9-]\<close>\<close>
  "is_label_char c = (is_alpha c \<or> in_range CHR ''0'' CHR ''9'' c \<or> c = CHR ''-'')"

definition target_pattern :: rexp where
  "target_pattern =
     Seq (Opt (Seq (Lit ''http'') (Seq (Opt (Chr CHR ''s'')) (Lit ''://''))))
    (Seq (Opt (Lit ''www.''))
         (Seq (Plus1 (Atom is_label_char))
              (Plus1 (Seq (Chr CHR ''.'')
                          (Seq (Atom is_alpha) (Seq (Atom is_alpha) (Star (Atom is_alpha))))))))"

definition pattern_match :: "string \<Rightarrow> string option" where
  \<comment> \<open>\<^verbatim>\<open>pattern.match(s)\<close>, giving \<^verbatim>\<open>match.group(0)\<close>. The pattern is anchored at both
      ends; Python's \<^verbatim>\<open>$\<close> also matches just before a newline that ends the string,
      and then group 0 leaves that newline out.\<close>
  "pattern_match s =
     (if in_lang target_pattern s then Some s
      else if s \<noteq> [] \<and> last s = CHR 0x0A \<and> in_lang target_pattern (butlast s)
           then Some (butlast s)
      else None)"

definition startswith :: "string \<Rightarrow> string \<Rightarrow> bool" where
  "startswith s p = prefix p s"

definition endswith :: "string \<Rightarrow> string \<Rightarrow> bool" where
  "endswith s p = suffix p s"

subsection \<open>main: validation, then one mode\<close>

record args =
  basic_info :: bool
  port_scan :: bool
  dir_scan :: bool
  sub_scan :: bool
  tech_scan :: bool
  target :: string
  ports :: "string option"
  wordlist :: string

datatype mode = Basic_Info | Port_Scan | Dir_Scan | Sub_Scan | Tech_Scan

text \<open>
  What \<^verbatim>\<open>main\<close> does is recorded as a list of events: a line printed by \<^verbatim>\<open>main\<close>
  itself, or the start of one mode's branch with the target it is given. The body of a
  branch (the collaborator calls and their printing) is not part of these events.
\<close>

datatype event = Print string | Run mode string

definition validate_target :: "string \<Rightarrow> string + string" where
  \<comment> \<open>Lines 254 to 267: \<^verbatim>\<open>Inr\<close> the target handed to the modes, \<^verbatim>\<open>Inl\<close> the line printed
      before \<^verbatim>\<open>main\<close> returns.\<close>
  "validate_target t =
     (if t \<noteq> [] then
        (case pattern_match t of
           Some m \<Rightarrow> Inr (if \<not> startswith m ''http'' then ''http://'' @ m else m)
         | None \<Rightarrow> Inl ''Invalid URL. Please enter a valid URL.'')
      else Inl ''Please enter a target URL.'')"

definition dispatch :: "args \<Rightarrow> string \<Rightarrow> event list" where
  \<comment> \<open>Lines 269 to 320: the if/elif chain.\<close>
  "dispatch a t =
     (if basic_info a then [Run Basic_Info t]
      else if port_scan a then [Run Port_Scan t]
      else if dir_scan a then [Run Dir_Scan t]
      else if sub_scan a then [Run Sub_Scan t]
      else if tech_scan a then [Run Tech_Scan t]
      else [])"

definition main :: "args \<Rightarrow> event list" where
  "main a =
     (case validate_target (target a) of
        Inl msg \<Rightarrow> [Print msg]
      | Inr t \<Rightarrow> dispatch a t)"

fun modes_run :: "event list \<Rightarrow> mode list" where
  "modes_run [] = []"
| "modes_run (Print s # es) = modes_run es"
| "modes_run (Run m t # es) = m # modes_run es"

fun printed :: "event list \<Rightarrow> string list" where
  "printed [] = []"
| "printed (Print s # es) = s # printed es"
| "printed (Run m t # es) = printed es"

definition requested :: "args \<Rightarrow> mode \<Rightarrow> bool" where
  "requested a m =
     (case m of
        Basic_Info \<Rightarrow> basic_info a
      | Port_Scan \<Rightarrow> port_scan a
      | Dir_Scan \<Rightarrow> dir_scan a
      | Sub_Scan \<Rightarrow> sub_scan a
      | Tech_Scan \<Rightarrow> tech_scan a)"

definition priority :: "mode list" where
  "priority = [Basic_Info, Port_Scan, Dir_Scan, Sub_Scan, Tech_Scan]"

section \<open>The collaborators\<close>

subsection \<open>Exceptions, requests and responses\<close>

text \<open>
  The exceptions the scanner distinguishes. In the requests library
  \<^verbatim>\<open>ConnectionError\<close> is a subclass of \<^verbatim>\<open>RequestException\<close>; every other
  \<^verbatim>\<open>RequestException\<close> (\<^verbatim>\<open>InvalidURL\<close>, \<^verbatim>\<open>TooManyRedirects\<close>, \<^verbatim>\<open>HTTPError\<close>, ...) is
  \<open>RequestException\<close> here, and an exception outside that hierarchy (\<^verbatim>\<open>ValueError\<close>, ...)
  is \<open>OtherException\<close>. The string is \<^verbatim>\<open>str(e)\<close>.
\<close>

datatype exn = ConnectionError string | RequestException string | OtherException string

fun str_of :: "exn \<Rightarrow> string" where
  "str_of (ConnectionError m) = m"
| "str_of (RequestException m) = m"
| "str_of (OtherException m) = m"

fun is_ConnectionError :: "exn \<Rightarrow> bool" where
  "is_ConnectionError (ConnectionError m) = True"
| "is_ConnectionError (RequestException m) = False"
| "is_ConnectionError (OtherException m) = False"

fun is_RequestException :: "exn \<Rightarrow> bool" where
  "is_RequestException (ConnectionError m) = True"
| "is_RequestException (RequestException m) = True"
| "is_RequestException (OtherException m) = False"

text \<open>
  A call \<^verbatim>\<open>requests.get(url, timeout=...)\<close> is the record of its arguments; a call
  without the keyword has \<open>req_timeout = None\<close>, which is also the library's default and
  means that the call waits without limit.
\<close>

record http_request =
  req_url :: string
  req_timeout :: "nat option"

text \<open>
  A response is kept as its status code, the message \<^verbatim>\<open>raise_for_status\<close> gives its
  \<^verbatim>\<open>HTTPError\<close>, and the \<^verbatim>\<open>href\<close> attribute of each \<^verbatim>\<open>a\<close> element that the HTML parser
  finds in the body, in document order (\<open>None\<close> for an element without the attribute).
\<close>

record response =
  status_code :: nat
  http_error_msg :: string
  anchors :: "string option list"

definition raise_for_status :: "response \<Rightarrow> exn + unit" where
  "raise_for_status r =
     (if 400 \<le> status_code r \<and> status_code r < 600
      then Inl (RequestException (http_error_msg r)) else Inr ())"

text \<open>
  The world outside the program: the network, the URL functions of the standard library
  and the order in which a Python set of strings is iterated (it depends on the hash seed
  of the process, so it is a parameter).
\<close>

record world =
  http_get :: "http_request \<Rightarrow> exn + response"
  urljoin :: "string \<Rightarrow> string \<Rightarrow> exn + string"
  urlparse_path :: "string \<Rightarrow> exn + string"
  set_order :: "string list \<Rightarrow> string list"

subsection \<open>\<^verbatim>\<open>urllib.parse\<close>\<close>

text \<open>
  The functions \<^verbatim>\<open>urlsplit\<close>, \<^verbatim>\<open>urlparse\<close>, \<^verbatim>\<open>urlunparse\<close> and \<^verbatim>\<open>urljoin\<close> of CPython 3.11,
  for \<^verbatim>\<open>str\<close> arguments. Two checks of \<^verbatim>\<open>urlsplit\<close> are left out, so that the functions
  below accept a URL where CPython raises \<^verbatim>\<open>ValueError\<close>: the check that the text between
  the brackets of a host is an IPv6 or IPvFuture address, and the check of the NFKC form
  of a host with characters outside ASCII. A host with only one of the two brackets is
  refused here as it is there.
\<close>

definition ascii_lower :: "char \<Rightarrow> char" where
  "ascii_lower c = (if in_range CHR ''A'' CHR ''Z'' c then char_of (of_char c + (32::nat)) else c)"

definition is_scheme_char :: "char \<Rightarrow> bool" where
  "is_scheme_char c =
     (is_alpha c \<or> in_range CHR ''0'' CHR ''9'' c \<or> c = CHR ''+'' \<or> c = CHR ''-'' \<or> c = CHR ''.'')"

definition uses_relative :: "string list" where
  "uses_relative = ['''', ''ftp'', ''http'', ''gopher'', ''nntp'', ''imap'', ''wais'', ''file'',
     ''https'', ''shttp'', ''mms'', ''prospero'', ''rtsp'', ''rtspu'', ''sftp'', ''svn'',
     ''svn+ssh'', ''ws'', ''wss'']"

definition uses_netloc :: "string list" where
  "uses_netloc = ['''', ''ftp'', ''http'', ''gopher'', ''nntp'', ''telnet'', ''imap'', ''wais'',
     ''file'', ''mms'', ''https'', ''shttp'', ''snews'', ''prospero'', ''rtsp'', ''rtspu'',
     ''rsync'', ''svn'', ''svn+ssh'', ''sftp'', ''nfs'', ''git'', ''git+ssh'', ''ws'', ''wss'']"

definition uses_params :: "string list" where
  "uses_params = ['''', ''ftp'', ''hdl'', ''prospero'', ''http'', ''imap'', ''https'', ''shttp'',
     ''rtsp'', ''rtspu'', ''sip'', ''sips'', ''mms'', ''sftp'', ''tel'']"

fun split_on :: "char \<Rightarrow> string \<Rightarrow> string list" where
  \<comment> \<open>\<^verbatim>\<open>s.split(c)\<close>\<close>
  "split_on c [] = [[]]"
| "split_on c (x # xs) =
     (if x = c then [] # split_on c xs
      else (case split_on c xs of [] \<Rightarrow> [[x]] | w # ws \<Rightarrow> (x # w) # ws))"

fun join_with :: "string \<Rightarrow> string list \<Rightarrow> string" where
  \<comment> \<open>\<^verbatim>\<open>sep.join(parts)\<close>\<close>
  "join_with sep [] = []"
| "join_with sep [p] = p"
| "join_with sep (p # q # ps) = p @ sep @ join_with sep (q # ps)"

definition split_first :: "char \<Rightarrow> string \<Rightarrow> string \<times> string" where
  \<comment> \<open>\<^verbatim>\<open>s.split(c, 1)\<close> for a string that contains \<^verbatim>\<open>c\<close>\<close>
  "split_first c s = (takeWhile (\<lambda>x. x \<noteq> c) s, drop 1 (dropWhile (\<lambda>x. x \<noteq> c) s))"

record url_parts =
  scheme :: string
  netloc :: string
  path :: string
  params :: string
  query :: string
  fragment :: string

definition is_c0_or_space :: "char \<Rightarrow> bool" where
  \<comment> \<open>the control characters with codes 0 to 31 and the space\<close>
  "is_c0_or_space c = ((of_char c :: nat) \<le> 32)"

definition is_unsafe_byte :: "char \<Rightarrow> bool" where
  \<comment> \<open>tab, carriage return and line feed, which \<^verbatim>\<open>urlsplit\<close> removes wherever they stand\<close>
  "is_unsafe_byte c = (c = CHR 0x09 \<or> c = CHR 0x0D \<or> c = CHR 0x0A)"

definition urlsplit :: "string \<Rightarrow> string \<Rightarrow> exn + url_parts" where
  "urlsplit url_arg scheme_arg =
     (let url = filter (\<lambda>x. \<not> is_unsafe_byte x) (dropWhile is_c0_or_space url_arg);
          default_scheme =
            filter (\<lambda>x. \<not> is_unsafe_byte x)
              (rev (dropWhile is_c0_or_space (rev (dropWhile is_c0_or_space scheme_arg))));
          pre = takeWhile (\<lambda>x. x \<noteq> CHR '':'') url;
          has_scheme = (CHR '':'' \<in> set url \<and> pre \<noteq> [] \<and> is_alpha (hd url)
                        \<and> list_all is_scheme_char pre);
          sch = (if has_scheme then map ascii_lower pre else default_scheme);
          url1 = (if has_scheme then drop (length pre + 1) url else url);
          is_delim = (\<lambda>x. x = CHR ''/'' \<or> x = CHR ''?'' \<or> x = CHR ''#'');
          has_netloc = (take 2 url1 = ''//'');
          nl = (if has_netloc then takeWhile (\<lambda>x. \<not> is_delim x) (drop 2 url1) else []);
          url2 = (if has_netloc then dropWhile (\<lambda>x. \<not> is_delim x) (drop 2 url1) else url1)
      in if (CHR ''['' \<in> set nl \<and> CHR '']'' \<notin> set nl) \<or> (CHR '']'' \<in> set nl \<and> CHR ''['' \<notin> set nl)
         then Inl (OtherException ''Invalid IPv6 URL'')
         else
           (let frag = (if CHR ''#'' \<in> set url2 then snd (split_first CHR ''#'' url2) else []);
                url3 = (if CHR ''#'' \<in> set url2 then fst (split_first CHR ''#'' url2) else url2);
                qry = (if CHR ''?'' \<in> set url3 then snd (split_first CHR ''?'' url3) else []);
                url4 = (if CHR ''?'' \<in> set url3 then fst (split_first CHR ''?'' url3) else url3)
            in Inr \<lparr>scheme = sch, netloc = nl, path = url4, params = [], query = qry,
                    fragment = frag\<rparr>))"

definition splitparams :: "string \<Rightarrow> string \<times> string" where
  \<comment> \<open>\<^verbatim>\<open>_splitparams\<close>: the parameters start at the first \<^verbatim>\<open>;\<close> of the last path segment\<close>
  "splitparams url =
     (let j = (if CHR ''/'' \<in> set url
               then length url - 1 - length (takeWhile (\<lambda>x. x \<noteq> CHR ''/'') (rev url)) else 0);
          front = take j url;
          back = drop j url
      in if CHR '';'' \<in> set back
         then (front @ takeWhile (\<lambda>x. x \<noteq> CHR '';'') back,
               drop 1 (dropWhile (\<lambda>x. x \<noteq> CHR '';'') back))
         else (url, []))"

definition urlparse :: "string \<Rightarrow> string \<Rightarrow> exn + url_parts" where
  "urlparse url default_scheme =
     (case urlsplit url default_scheme of
        Inl e \<Rightarrow> Inl e
      | Inr u \<Rightarrow>
          if scheme u \<in> set uses_params \<and> CHR '';'' \<in> set (path u)
          then Inr (u\<lparr>path := fst (splitparams (path u)), params := snd (splitparams (path u))\<rparr>)
          else Inr u)"

definition urlunparse :: "url_parts \<Rightarrow> string" where
  \<comment> \<open>\<^verbatim>\<open>urlunparse\<close> with \<^verbatim>\<open>urlunsplit\<close> unfolded\<close>
  "urlunparse u =
     (let url0 = (if params u \<noteq> [] then path u @ '';'' @ params u else path u);
          url1 = (if netloc u \<noteq> []
                     \<or> (scheme u \<noteq> [] \<and> scheme u \<in> set uses_netloc \<and> take 2 url0 \<noteq> ''//'')
                  then ''//'' @ netloc u
                       @ (if url0 \<noteq> [] \<and> take 1 url0 \<noteq> ''/'' then ''/'' @ url0 else url0)
                  else url0);
          url2 = (if scheme u \<noteq> [] then scheme u @ '':'' @ url1 else url1);
          url3 = (if query u \<noteq> [] then url2 @ ''?'' @ query u else url2)
      in if fragment u \<noteq> [] then url3 @ ''#'' @ fragment u else url3)"

fun resolve_segments :: "string list \<Rightarrow> string list \<Rightarrow> string list" where
  \<comment> \<open>the loop over \<^verbatim>\<open>segments\<close> in \<^verbatim>\<open>urljoin\<close>; the second argument is \<^verbatim>\<open>resolved_path\<close>\<close>
  "resolve_segments [] acc = acc"
| "resolve_segments (seg # segs) acc =
     (if seg = ''..'' then resolve_segments segs (butlast acc)
      else if seg = ''.'' then resolve_segments segs acc
      else resolve_segments segs (acc @ [seg]))"

definition py_urljoin :: "string \<Rightarrow> string \<Rightarrow> exn + string" where
  "py_urljoin base url =
     (if base = [] then Inr url
      else if url = [] then Inr base
      else
        (case urlparse base [] of
           Inl e \<Rightarrow> Inl e
         | Inr b \<Rightarrow>
            (case urlparse url (scheme b) of
               Inl e \<Rightarrow> Inl e
             | Inr u \<Rightarrow>
                if scheme u \<noteq> scheme b \<or> scheme u \<notin> set uses_relative then Inr url
                else if scheme u \<in> set uses_netloc \<and> netloc u \<noteq> [] then Inr (urlunparse u)
                else
                  (let nl = (if scheme u \<in> set uses_netloc then netloc b else netloc u)
                   in if path u = [] \<and> params u = []
                      then Inr (urlunparse (u\<lparr>netloc := nl, path := path b, params := params b,
                                  query := (if query u = [] then query b else query u)\<rparr>))
                      else
                        (let base_parts0 = split_on CHR ''/'' (path b);
                             base_parts = (if last base_parts0 \<noteq> [] then butlast base_parts0
                                           else base_parts0);
                             joined = base_parts @ split_on CHR ''/'' (path u);
                             segments =
                               (if take 1 (path u) = ''/'' then split_on CHR ''/'' (path u)
                                else if 2 \<le> length joined
                                     then hd joined # filter (\<lambda>s. s \<noteq> []) (butlast (tl joined))
                                          @ [last joined]
                                     else joined);
                             resolved0 = resolve_segments segments [];
                             resolved = (if last segments = ''.'' \<or> last segments = ''..''
                                         then resolved0 @ [[]] else resolved0);
                             p = join_with ''/'' resolved
                         in Inr (urlunparse (u\<lparr>netloc := nl,
                                   path := (if p = [] then ''/'' else p)\<rparr>)))))))"

definition py_urlparse_path :: "string \<Rightarrow> exn + string" where
  \<comment> \<open>\<^verbatim>\<open>urlparse(full_url).path\<close>\<close>
  "py_urlparse_path url = (case urlparse url [] of Inl e \<Rightarrow> Inl e | Inr u \<Rightarrow> Inr (path u))"

section \<open>WebScanner\<close>

fun remove_all :: "string \<Rightarrow> string \<Rightarrow> string" where
  \<comment> \<open>\<^verbatim>\<open>s.replace(pat, '')\<close> for a non-empty \<^verbatim>\<open>pat\<close>: occurrences are removed from left to
      right, without overlap\<close>
  "remove_all pat [] = []"
| "remove_all pat (c # cs) =
     (if pat \<noteq> [] \<and> prefix pat (c # cs)
      then remove_all pat (drop (length pat) (c # cs))
      else c # remove_all pat cs)"

definition strip_protocol :: "string \<Rightarrow> string" where
  "strip_protocol url = remove_all ''https://'' (remove_all ''http://'' url)"

text \<open>
  The fields of a \<^verbatim>\<open>WebScanner\<close>. The constructor also makes a queue and a lock
  (\<^verbatim>\<open>self.q\<close>, \<^verbatim>\<open>self.list_lock\<close>) that no method reads: the subdomain scan makes its own.
\<close>

record web_scanner =
  self_target :: string
  self_Target :: string
  self_wordlist :: string
  self_results :: "string list"

definition WebScanner :: "string \<Rightarrow> string \<Rightarrow> web_scanner" where
  \<comment> \<open>\<^verbatim>\<open>__init__\<close>\<close>
  "WebScanner t wl =
     \<lparr>self_target = t, self_Target = strip_protocol t, self_wordlist = wl, self_results = []\<rparr>"

subsection \<open>scan\_directories\<close>

definition directory_request :: "web_scanner \<Rightarrow> http_request" where
  \<comment> \<open>\<^verbatim>\<open>requests.get(self.target, timeout=5)\<close>\<close>
  "directory_request self = \<lparr>req_url = self_target self, req_timeout = Some 5\<rparr>"

definition set_add :: "string \<Rightarrow> string list \<Rightarrow> string list" where
  \<comment> \<open>\<^verbatim>\<open>directories.add(x)\<close>; the set is kept as a list without repetition\<close>
  "set_add x xs = (if x \<in> set xs then xs else xs @ [x])"

fun collect_links ::
  "world \<Rightarrow> string \<Rightarrow> string option list \<Rightarrow> string list \<Rightarrow> string list \<times> exn option" where
  \<comment> \<open>The loop of lines 104 to 111 inside its \<^verbatim>\<open>try\<close>: an exception ends the loop and keeps
      what \<^verbatim>\<open>directories\<close> holds by then.\<close>
  "collect_links w t [] dirs = (dirs, None)"
| "collect_links w t (None # hs) dirs = collect_links w t hs dirs"
| "collect_links w t (Some url # hs) dirs =
     (if url = [] then collect_links w t hs dirs
      else
        (case urljoin w t url of
           Inl e \<Rightarrow> (dirs, Some e)
         | Inr full_url \<Rightarrow>
            (case urlparse_path w full_url of
               Inl e \<Rightarrow> (dirs, Some e)
             | Inr p \<Rightarrow>
                if endswith p ''/'' then collect_links w t hs (set_add full_url dirs)
                else collect_links w t hs dirs)))"

record scan_outcome =
  returned :: "exn + string list"
  stdout :: "string list"
  self_after :: web_scanner

definition fetch :: "world \<Rightarrow> web_scanner \<Rightarrow> exn + response" where
  \<comment> \<open>lines 94 and 95\<close>
  "fetch w self =
     (case http_get w (directory_request self) of
        Inl e \<Rightarrow> Inl e
      | Inr r \<Rightarrow> (case raise_for_status r of Inl e \<Rightarrow> Inl e | Inr u \<Rightarrow> Inr r))"

definition scan_directories :: "world \<Rightarrow> web_scanner \<Rightarrow> scan_outcome" where
  "scan_directories w self =
     (let banner = ''Performing directory scan on '' @ self_target self @ ''...'' @ [CHR 0x0A]
      in case fetch w self of
           Inl e \<Rightarrow>
             if is_RequestException e
             then \<lparr>returned = Inr (self_results self),
                   stdout = [banner, ''[!] Error accessing '' @ self_target self @ '': '' @ str_of e],
                   self_after = self\<rparr>
             else \<lparr>returned = Inl e, stdout = [banner], self_after = self\<rparr>
         | Inr r \<Rightarrow>
             (let found = collect_links w (self_target self) (anchors r) [];
                  results' = self_results self @ set_order w (fst found)
              in \<lparr>returned = Inr results',
                  stdout = banner #
                    (case snd found of None \<Rightarrow> [] | Some e \<Rightarrow> [''An error occurred: '' @ str_of e]),
                  self_after = self\<lparr>self_results := results'\<rparr>\<rparr>))"

subsection \<open>scan\_subdomains\<close>

definition is_space :: "char \<Rightarrow> bool" where
  \<comment> \<open>the characters below code point 256 that \<^verbatim>\<open>str.strip()\<close> removes\<close>
  "is_space c =
     (let n = (of_char c :: nat)
      in (9 \<le> n \<and> n \<le> 13) \<or> (28 \<le> n \<and> n \<le> 32) \<or> n = 133 \<or> n = 160)"

definition strip :: "string \<Rightarrow> string" where
  "strip s = rev (dropWhile is_space (rev (dropWhile is_space s)))"

definition subdomain_url :: "web_scanner \<Rightarrow> string \<Rightarrow> string" where
  \<comment> \<open>line 135\<close>
  "subdomain_url self subdomain = ''http://'' @ subdomain @ ''.'' @ self_Target self"

definition subdomain_request :: "web_scanner \<Rightarrow> string \<Rightarrow> http_request" where
  \<comment> \<open>\<^verbatim>\<open>requests.get(url)\<close>, line 137\<close>
  "subdomain_request self subdomain =
     \<lparr>req_url = subdomain_url self subdomain, req_timeout = None\<rparr>"

text \<open>
  A worker thread runs \<^verbatim>\<open>scan\<close>. Between two of its actions on shared data it is at one of
  these points; from \<open>At_request\<close> on it holds the item it took from the queue.
  \<open>Dead\<close> is a thread ended by an exception that \<^verbatim>\<open>scan\<close> does not catch.
\<close>

datatype worker =
    At_get
  | At_request string
  | At_append string
  | At_task_done string
  | Dead

text \<open>
  Modelled from the spec: the queue of the standard library, which the threads share and
  whose code is not part of the repository, as section 4.2 describes it and as
  \<^verbatim>\<open>queue.Queue\<close> documents it: \<^verbatim>\<open>put\<close> adds at the tail and counts the item as unfinished,
  \<^verbatim>\<open>get\<close> takes the head and blocks on an empty queue, \<^verbatim>\<open>task_done\<close> counts one
  unfinished item less (and raises \<^verbatim>\<open>ValueError\<close> when none is left), \<^verbatim>\<open>join\<close> returns
  once the count of unfinished items is zero. The fields \<open>dequeued\<close> and \<open>acked\<close> are not in
  the program: they record the items that \<^verbatim>\<open>get\<close> has returned and the items whose worker
  has called \<^verbatim>\<open>task_done\<close>.
\<close>

record pool =
  queue :: "string list"
  unfinished_tasks :: nat
  results :: "string list"
  threads :: "worker list"
  dequeued :: "string list"
  acked :: "string list"

definition start_scan :: "nat \<Rightarrow> string list \<Rightarrow> pool" where
  \<comment> \<open>Lines 121 to 149: the results are emptied, every line of the wordlist is stripped
      and put on a new queue, and the workers are started (10 of them in the program).\<close>
  "start_scan n lines =
     \<lparr>queue = map strip lines, unfinished_tasks = length lines, results = [],
      threads = replicate n At_get, dequeued = [], acked = []\<rparr>"

definition worker_count :: nat where
  \<comment> \<open>\<^verbatim>\<open>for t in range(10)\<close>\<close>
  "worker_count = 10"

definition step :: "world \<Rightarrow> web_scanner \<Rightarrow> nat \<Rightarrow> pool \<Rightarrow> pool" where
  \<comment> \<open>Thread \<open>i\<close> performs its next action. A thread blocked in \<^verbatim>\<open>get\<close>, a dead thread and
      an index that names no thread leave the state as it is.\<close>
  "step w self i s =
     (if i < length (threads s) then
        (case threads s ! i of
           At_get \<Rightarrow>
             (case queue s of
                [] \<Rightarrow> s
              | x # xs \<Rightarrow> s\<lparr>queue := xs, threads := (threads s)[i := At_request x],
                            dequeued := dequeued s @ [x]\<rparr>)
         | At_request sub \<Rightarrow>
             (case http_get w (subdomain_request self sub) of
                Inr r \<Rightarrow> s\<lparr>threads := (threads s)[i := At_append sub]\<rparr>
              | Inl e \<Rightarrow>
                  if is_ConnectionError e
                  then s\<lparr>threads := (threads s)[i := At_task_done sub]\<rparr>
                  else s\<lparr>threads := (threads s)[i := Dead]\<rparr>)
         | At_append sub \<Rightarrow>
             s\<lparr>results := results s @ [subdomain_url self sub],
               threads := (threads s)[i := At_task_done sub]\<rparr>
         | At_task_done sub \<Rightarrow>
             if unfinished_tasks s = 0 then s\<lparr>threads := (threads s)[i := Dead]\<rparr>
             else s\<lparr>unfinished_tasks := unfinished_tasks s - 1,
                    threads := (threads s)[i := At_get], acked := acked s @ [sub]\<rparr>
         | Dead \<Rightarrow> s)
      else s)"

fun run :: "world \<Rightarrow> web_scanner \<Rightarrow> nat list \<Rightarrow> pool \<Rightarrow> pool" where
  \<comment> \<open>a schedule is the list of the threads that act, in order\<close>
  "run w self [] s = s"
| "run w self (i # sched) s = run w self sched (step w self i s)"

definition join_returns :: "pool \<Rightarrow> bool" where
  \<comment> \<open>\<^verbatim>\<open>q.join()\<close> returns in a state where no item is unfinished\<close>
  "join_returns s = (unfinished_tasks s = 0)"

definition scan_subdomains ::
  "world \<Rightarrow> web_scanner \<Rightarrow> string list \<Rightarrow> nat list \<Rightarrow> string list option" where
  \<comment> \<open>The call on a wordlist file with these lines, when the threads act in the order
      of the schedule: \<open>Some\<close> of the returned \<^verbatim>\<open>self.results\<close> if \<^verbatim>\<open>q.join()\<close> returns in the
      state reached, \<open>None\<close> if the caller is still blocked in \<^verbatim>\<open>q.join()\<close> there.\<close>
  "scan_subdomains w self lines sched =
     (let s = run w self sched (start_scan worker_count lines)
      in if join_returns s then Some (results s) else None)"

subsection \<open>Notions for the proofs about the pool\<close>

fun holding :: "worker \<Rightarrow> string list" where
  \<comment> \<open>the item a thread has taken and not yet acknowledged\<close>
  "holding At_get = []"
| "holding (At_request x) = [x]"
| "holding (At_append x) = [x]"
| "holding (At_task_done x) = [x]"
| "holding Dead = []"

fun finishing :: "worker \<Rightarrow> string list" where
  \<comment> \<open>the item of a thread that is past its probe and about to acknowledge\<close>
  "finishing (At_task_done x) = [x]"
| "finishing t = []"

definition probe_ok :: "world \<Rightarrow> web_scanner \<Rightarrow> string \<Rightarrow> bool" where
  \<comment> \<open>\<^verbatim>\<open>requests.get\<close> returns for this candidate: the \<^verbatim>\<open>else\<close> branch of the \<^verbatim>\<open>try\<close>\<close>
  "probe_ok w self sub =
     (case http_get w (subdomain_request self sub) of Inr r \<Rightarrow> True | Inl e \<Rightarrow> False)"

definition probe_survives :: "world \<Rightarrow> web_scanner \<Rightarrow> string \<Rightarrow> bool" where
  \<comment> \<open>the probe returns or raises \<^verbatim>\<open>ConnectionError\<close>, the one exception \<^verbatim>\<open>scan\<close> catches\<close>
  "probe_survives w self sub =
     (case http_get w (subdomain_request self sub) of
        Inr r \<Rightarrow> True
      | Inl e \<Rightarrow> is_ConnectionError e)"

fun thread_ok :: "world \<Rightarrow> web_scanner \<Rightarrow> worker \<Rightarrow> bool" where
  "thread_ok w self (At_append x) = probe_ok w self x"
| "thread_ok w self (At_task_done x) = probe_survives w self x"
| "thread_ok w self t = True"

definition pool_inv :: "world \<Rightarrow> web_scanner \<Rightarrow> string list \<Rightarrow> pool \<Rightarrow> bool" where
  "pool_inv w self cands s =
     (dequeued s @ queue s = cands
      \<and> unfinished_tasks s + length (acked s) = length cands
      \<and> mset (acked s) + mset (concat (map holding (threads s))) \<subseteq># mset (dequeued s)
      \<and> (\<forall>t \<in> set (threads s). thread_ok w self t)
      \<and> (\<forall>x \<in> set (acked s). probe_survives w self x)
      \<and> mset (results s) =
          mset (map (subdomain_url self)
                 (filter (probe_ok w self) (acked s @ concat (map finishing (threads s))))))"

fun remaining :: "worker \<Rightarrow> nat" where
  \<comment> \<open>the actions a thread still has to perform on the item it holds\<close>
  "remaining At_get = 0"
| "remaining (At_request x) = 3"
| "remaining (At_append x) = 2"
| "remaining (At_task_done x) = 1"
| "remaining Dead = 0"

definition work_left :: "pool \<Rightarrow> nat" where
  "work_left s = 4 * length (queue s) + sum_list (map remaining (threads s))"

definition live_inv :: "pool \<Rightarrow> bool" where
  "live_inv s =
     (Dead \<notin> set (threads s)
      \<and> length (dequeued s) = length (acked s) + length (concat (map holding (threads s))))"

subsection \<open>Concrete worlds\<close>

definition example_scanner :: web_scanner where
  "example_scanner = WebScanner ''http://example.com'' ''subdomains.txt''"

definition page_world :: "string option list \<Rightarrow> world" where
  \<comment> \<open>every GET is answered 200 with a page that has these links\<close>
  "page_world hrefs =
     \<lparr>http_get = (\<lambda>req. Inr \<lparr>status_code = 200, http_error_msg = [], anchors = hrefs\<rparr>),
      urljoin = py_urljoin, urlparse_path = py_urlparse_path, set_order = (\<lambda>xs. xs)\<rparr>"

definition down_world :: world where
  \<comment> \<open>no host can be reached\<close>
  "down_world =
     \<lparr>http_get = (\<lambda>req. Inl (ConnectionError ''Connection refused'')),
      urljoin = py_urljoin, urlparse_path = py_urlparse_path, set_order = (\<lambda>xs. xs)\<rparr>"

definition fixture :: "string option list" where
  "fixture = [Some ''/a/'', Some ''/b'', Some ''http://other.example/c/'']"

definition www_world :: world where
  \<comment> \<open>only \<^verbatim>\<open>www.example.com\<close> resolves\<close>
  "www_world =
     \<lparr>http_get = (\<lambda>req. if req_url req = ''http://www.example.com''
                         then Inr \<lparr>status_code = 200, http_error_msg = [], anchors = []\<rparr>
                         else Inl (ConnectionError ''Name or service not known'')),
      urljoin = py_urljoin, urlparse_path = py_urlparse_path, set_order = (\<lambda>xs. xs)\<rparr>"

definition invalid_label_world :: world where
  \<comment> \<open>The requests library refuses a host that starts with a dot with \<^verbatim>\<open>InvalidURL\<close>,
      a \<^verbatim>\<open>RequestException\<close> that is not a \<^verbatim>\<open>ConnectionError\<close>; no other host resolves.\<close>
  "invalid_label_world =
     \<lparr>http_get = (\<lambda>req. if req_url req = ''http://.example.com''
                         then Inl (RequestException ''URL has an invalid label.'')
                         else Inl (ConnectionError ''Name or service not known'')),
      urljoin = py_urljoin, urlparse_path = py_urlparse_path, set_order = (\<lambda>xs. xs)\<rparr>"

definition three_lines :: "string list" where
  \<comment> \<open>the lines of a wordlist file, each with its newline\<close>
  "three_lines = [''www'' @ [CHR 0x0A], ''mail'' @ [CHR 0x0A], ''doesnotexist12345'' @ [CHR 0x0A]]"

definition blank_line :: "string list" where
  \<comment> \<open>a wordlist file that consists of one empty line\<close>
  "blank_line = [[CHR 0x0A]]"

definition three_threads_schedule :: "nat list" where
  "three_threads_schedule = [0, 1, 2, 0, 1, 2, 0, 1, 2, 0]"

definition long_label :: string where
  \<comment> \<open>a host name that the target pattern accepts and whose first label has 64 letters,
      one more than a DNS label may have\<close>
  "long_label = replicate 64 CHR ''a'' @ ''.com''"

definition long_label_world :: world where
  \<comment> \<open>For a host with a label of more than 63 characters the connection is never opened:
      urllib3 raises its \<^verbatim>\<open>LocationParseError\<close>, which the requests library passes on as it
      is. It is a \<^verbatim>\<open>ValueError\<close> and not a \<^verbatim>\<open>RequestException\<close>.\<close>
  "long_label_world =
     \<lparr>http_get = (\<lambda>req. Inl (OtherException ''Failed to parse: label empty or too long'')),
      urljoin = py_urljoin, urlparse_path = py_urlparse_path, set_order = (\<lambda>xs. xs)\<rparr>"

definition all_flags :: "string \<Rightarrow> args" where
  "all_flags t =
     \<lparr>basic_info = True, port_scan = True, dir_scan = True, sub_scan = True, tech_scan = True,
      target = t, ports = None, wordlist = ''subdomains.txt''\<rparr>"

section \<open>Lemmas\<close>

subsection \<open>The scanner\<close>

lemma remove_all_none: "c \<in> set pat \<Longrightarrow> c \<notin> set s \<Longrightarrow> remove_all pat s = s"
proof (induction s)
  case Nil
  then show ?case by simp
next
  case (Cons x xs)
  have "\<not> prefix pat (x # xs)"
  proof
    assume "prefix pat (x # xs)"
    then have "set pat \<subseteq> set (x # xs)" by (rule set_mono_prefix)
    with Cons.prems show False by auto
  qed
  with Cons show ?case by simp
qed

lemma strip_protocol_http: "CHR '':'' \<notin> set h \<Longrightarrow> strip_protocol (''http://'' @ h) = h"
  using remove_all_none[of "CHR '':''" "''http://''" h]
    remove_all_none[of "CHR '':''" "''https://''" h]
  by (simp add: strip_protocol_def)

lemma strip_protocol_https: "CHR '':'' \<notin> set h \<Longrightarrow> strip_protocol (''https://'' @ h) = h"
  using remove_all_none[of "CHR '':''" "''http://''" h]
    remove_all_none[of "CHR '':''" "''https://''" h]
  by (simp add: strip_protocol_def)


lemma scan_directories_returned:
  assumes "returned (scan_directories w self) = Inr r"
  shows "self_results (self_after (scan_directories w self)) = r \<and> prefix (self_results self) r"
  using assms
  by (auto simp: scan_directories_def Let_def split: sum.splits if_splits)

subsection \<open>The pool: what every reachable state satisfies\<close>

lemma concat_map_update:
  "i < length ts \<Longrightarrow>
     mset (concat (map f (ts[i := t]))) + mset (f (ts ! i)) = mset (concat (map f ts)) + mset (f t)"
proof (induction ts arbitrary: i)
  case Nil
  then show ?case by simp
next
  case (Cons a ts)
  show ?case
  proof (cases i)
    case 0
    then show ?thesis by simp
  next
    case (Suc j)
    with Cons.prems have "j < length ts" by simp
    from Cons.IH[OF this] Suc show ?thesis by (simp add: ac_simps)
  qed
qed

lemma update_same:
  assumes "i < length ts" and "f (ts ! i) = f t"
  shows "mset (concat (map f (ts[i := t]))) = mset (concat (map f ts))"
  using concat_map_update[OF assms(1), of f t] assms(2) by simp

lemma update_gain:
  assumes "i < length ts" and "f (ts ! i) = []" and "f t = [x]"
  shows "mset (concat (map f (ts[i := t]))) = add_mset x (mset (concat (map f ts)))"
  using concat_map_update[OF assms(1), of f t] assms(2,3) by simp

lemma update_lose:
  assumes "i < length ts" and "f (ts ! i) = [x]" and "f t = []"
  shows "add_mset x (mset (concat (map f (ts[i := t])))) = mset (concat (map f ts))"
  using concat_map_update[OF assms(1), of f t] assms(2,3) by simp

lemma threads_ok_update:
  assumes "\<forall>t \<in> set ts. thread_ok w self t" and "thread_ok w self t'"
  shows "\<forall>t \<in> set (ts[i := t']). thread_ok w self t"
  using assms set_update_subset_insert[of ts i t'] by auto

lemma pool_inv_start: "pool_inv w self (map strip lines) (start_scan n lines)"
  by (simp add: pool_inv_def start_scan_def)

lemma holding_size:
  assumes "mset A + mset H \<subseteq># mset D" and "D @ Q = C" and "u + length A = length C" and "H \<noteq> []"
  shows "0 < (u::nat)"
proof -
  from assms(1) have "size (mset A + mset H) \<le> size (mset D)" by (rule size_mset_mono)
  then have "length A + length H \<le> length D" by simp
  moreover from assms(4) have "0 < length H" by simp
  moreover from assms(2) have "length D \<le> length C" by auto
  ultimately show ?thesis using assms(3) by linarith
qed

lemma pool_inv_step:
  assumes inv: "pool_inv w self cands s"
  shows "pool_inv w self cands (step w self i s)"
proof (cases "i < length (threads s)")
  case False
  then show ?thesis using inv by (simp add: step_def)
next
  case i: True
  from inv have deq: "dequeued s @ queue s = cands"
    and unf: "unfinished_tasks s + length (acked s) = length cands"
    and held: "mset (acked s) + mset (concat (map holding (threads s))) \<subseteq># mset (dequeued s)"
    and tok: "\<forall>t \<in> set (threads s). thread_ok w self t"
    and aok: "\<forall>x \<in> set (acked s). probe_survives w self x"
    and res: "mset (results s) =
          mset (map (subdomain_url self)
                 (filter (probe_ok w self) (acked s @ concat (map finishing (threads s)))))"
    by (simp_all add: pool_inv_def)
  from i tok have toki: "thread_ok w self (threads s ! i)" by simp
  show ?thesis
  proof (cases "threads s ! i")
    case At_get
    show ?thesis
    proof (cases "queue s")
      case Nil
      with At_get i inv show ?thesis by (simp add: step_def)
    next
      case (Cons x xs)
      have st: "step w self i s = s\<lparr>queue := xs, threads := (threads s)[i := At_request x],
                            dequeued := dequeued s @ [x]\<rparr>"
        using At_get i Cons by (simp add: step_def)
      have h: "mset (concat (map holding ((threads s)[i := At_request x])))
                 = add_mset x (mset (concat (map holding (threads s))))"
        using i At_get by (intro update_gain) simp_all
      have f: "mset (concat (map finishing ((threads s)[i := At_request x])))
                 = mset (concat (map finishing (threads s)))"
        using i At_get by (intro update_same) simp_all
      have f': "mset (filter (probe_ok w self) (concat (map finishing ((threads s)[i := At_request x]))))
                 = mset (filter (probe_ok w self) (concat (map finishing (threads s))))"
        using f by (metis mset_filter)
      show ?thesis
        unfolding st pool_inv_def
        using deq unf held aok res Cons h f' threads_ok_update[OF tok, of "At_request x" i]
        by (simp add: mset_filter)
    qed
  next
    case (At_request sub)
    show ?thesis
    proof (cases "http_get w (subdomain_request self sub)")
      case (Inr r)
      have st: "step w self i s = s\<lparr>threads := (threads s)[i := At_append sub]\<rparr>"
        using At_request i Inr by (simp add: step_def)
      have h: "mset (concat (map holding ((threads s)[i := At_append sub])))
                 = mset (concat (map holding (threads s)))"
        using i At_request by (intro update_same) simp_all
      have f: "mset (concat (map finishing ((threads s)[i := At_append sub])))
                 = mset (concat (map finishing (threads s)))"
        using i At_request by (intro update_same) simp_all
      have f': "mset (filter (probe_ok w self) (concat (map finishing ((threads s)[i := At_append sub]))))
                 = mset (filter (probe_ok w self) (concat (map finishing (threads s))))"
        using f by (metis mset_filter)
      have "thread_ok w self (At_append sub)" using Inr by (simp add: probe_ok_def)
      from threads_ok_update[OF tok this, of i] show ?thesis
        unfolding st pool_inv_def
        using deq unf held aok res h f'
        by (simp add: mset_filter)
    next
      case (Inl e)
      show ?thesis
      proof (cases "is_ConnectionError e")
        case True
        have st: "step w self i s = s\<lparr>threads := (threads s)[i := At_task_done sub]\<rparr>"
          using At_request i Inl True by (simp add: step_def)
        have h: "mset (concat (map holding ((threads s)[i := At_task_done sub])))
                 = mset (concat (map holding (threads s)))"
          using i At_request by (intro update_same) simp_all
        have f: "mset (concat (map finishing ((threads s)[i := At_task_done sub])))
                 = add_mset sub (mset (concat (map finishing (threads s))))"
          using i At_request by (intro update_gain) simp_all
        have nok: "\<not> probe_ok w self sub" using Inl by (simp add: probe_ok_def)
        have f': "mset (filter (probe_ok w self) (concat (map finishing ((threads s)[i := At_task_done sub]))))
                 = mset (filter (probe_ok w self) (concat (map finishing (threads s))))"
          using f nok by (metis filter_mset_add_mset mset_filter)
        have "thread_ok w self (At_task_done sub)" using Inl True by (simp add: probe_survives_def)
        from threads_ok_update[OF tok this, of i] show ?thesis
          unfolding st pool_inv_def
          using deq unf held aok res h f'
          by (simp add: mset_filter)
      next
        case False
        have st: "step w self i s = s\<lparr>threads := (threads s)[i := Dead]\<rparr>"
          using At_request i Inl False by (simp add: step_def)
        have h: "add_mset sub (mset (concat (map holding ((threads s)[i := Dead]))))
                 = mset (concat (map holding (threads s)))"
          using i At_request by (intro update_lose) simp_all
        have h': "mset (acked s) + mset (concat (map holding ((threads s)[i := Dead]))) \<subseteq># mset (dequeued s)"
          using held h[symmetric] by (metis add_mset_add_single mset_subset_eq_insertD subset_mset.less_imp_le union_mset_add_mset_right)        
        have f: "mset (concat (map finishing ((threads s)[i := Dead])))
                 = mset (concat (map finishing (threads s)))"
          using i At_request by (intro update_same) simp_all
        have f': "mset (filter (probe_ok w self) (concat (map finishing ((threads s)[i := Dead]))))
                 = mset (filter (probe_ok w self) (concat (map finishing (threads s))))"
          using f by (metis mset_filter)
        have "thread_ok w self Dead" by simp
        from threads_ok_update[OF tok this, of i] show ?thesis
          unfolding st pool_inv_def
          using deq unf h' aok res f'
          by (simp add: mset_filter)
      qed
    qed
  next
    case (At_append sub)
    have st: "step w self i s = s\<lparr>results := results s @ [subdomain_url self sub],
               threads := (threads s)[i := At_task_done sub]\<rparr>"
      using At_append i by (simp add: step_def)
    have h: "mset (concat (map holding ((threads s)[i := At_task_done sub])))
                 = mset (concat (map holding (threads s)))"
      using i At_append by (intro update_same) simp_all
    have f: "mset (concat (map finishing ((threads s)[i := At_task_done sub])))
                 = add_mset sub (mset (concat (map finishing (threads s))))"
      using i At_append by (intro update_gain) simp_all
    have ok: "probe_ok w self sub" using toki At_append by simp
    have f': "mset (filter (probe_ok w self) (concat (map finishing ((threads s)[i := At_task_done sub]))))
                 = add_mset sub (mset (filter (probe_ok w self) (concat (map finishing (threads s)))))"
      using f ok by (metis filter_mset_add_mset mset_filter)
    have "thread_ok w self (At_task_done sub)" using ok
      by (simp add: probe_survives_def probe_ok_def split: sum.splits)
    from threads_ok_update[OF tok this, of i] show ?thesis
      unfolding st pool_inv_def
      using deq unf held aok res h f'
      by (simp add: mset_filter)
  next
    case (At_task_done sub)
    have "concat (map holding (threads s)) \<noteq> []"
      using i At_task_done by (auto simp: in_set_conv_nth intro!: bexI[of _ "threads s ! i"])
    from holding_size[OF held deq unf this] have pos: "0 < unfinished_tasks s" .
    have st: "step w self i s = s\<lparr>unfinished_tasks := unfinished_tasks s - 1,
                    threads := (threads s)[i := At_get], acked := acked s @ [sub]\<rparr>"
      using At_task_done i pos by (simp add: step_def)
    have h: "add_mset sub (mset (concat (map holding ((threads s)[i := At_get]))))
                 = mset (concat (map holding (threads s)))"
      using i At_task_done by (intro update_lose) simp_all
    have f: "add_mset sub (mset (concat (map finishing ((threads s)[i := At_get]))))
                 = mset (concat (map finishing (threads s)))"
      using i At_task_done by (intro update_lose) simp_all
    have f': "filter_mset (probe_ok w self) (add_mset sub (mset (concat (map finishing ((threads s)[i := At_get])))))
                 = filter_mset (probe_ok w self) (mset (concat (map finishing (threads s))))"
      using f by simp
    have sv: "probe_survives w self sub" using toki At_task_done by simp
    have "thread_ok w self At_get" by simp
    from threads_ok_update[OF tok this, of i] show ?thesis
      unfolding st pool_inv_def
      using deq unf held aok res h[symmetric] f'[symmetric] pos sv
      by (simp add: mset_filter)
  next
    case Dead
    with i inv show ?thesis by (simp add: step_def)
  qed
qed

lemma pool_inv_run:
  "pool_inv w self cands s \<Longrightarrow> pool_inv w self cands (run w self sched s)"
  by (induction sched arbitrary: s) (simp_all add: pool_inv_step)

lemma run_append: "run w self (xs @ ys) s = run w self ys (run w self xs s)"
  by (induction xs arbitrary: s) simp_all

lemma finishing_of_holding: "holding t = [] \<Longrightarrow> finishing t = []"
  by (cases t) simp_all

lemma pool_inv_drained:
  assumes inv: "pool_inv w self cands s" and j: "join_returns s"
  shows "queue s = []" and "dequeued s = cands" and "mset (acked s) = mset cands"
    and "concat (map holding (threads s)) = []"
    and "mset (results s) = mset (map (subdomain_url self) (filter (probe_ok w self) cands))"
    and "\<forall>x \<in> set cands. probe_survives w self x"
proof -
  from inv have deq: "dequeued s @ queue s = cands"
    and unf: "unfinished_tasks s + length (acked s) = length cands"
    and held: "mset (acked s) + mset (concat (map holding (threads s))) \<subseteq># mset (dequeued s)"
    and aok: "\<forall>x \<in> set (acked s). probe_survives w self x"
    and res: "mset (results s) =
          mset (map (subdomain_url self)
                 (filter (probe_ok w self) (acked s @ concat (map finishing (threads s)))))"
    by (simp_all add: pool_inv_def)
  from j unf have la: "length (acked s) = length cands" by (simp add: join_returns_def)
  from held have "size (mset (acked s) + mset (concat (map holding (threads s)))) \<le> size (mset (dequeued s))"
    by (rule size_mset_mono)
  then have le: "length (acked s) + length (concat (map holding (threads s))) \<le> length (dequeued s)"
    by simp
  from deq have ld: "length (dequeued s) + length (queue s) = length cands"
    by (metis length_append)
  from la le ld have "length (queue s) = 0" by linarith
  then show q: "queue s = []" by simp
  with deq show d: "dequeued s = cands" by simp
  from la le ld have "length (concat (map holding (threads s))) = 0" by linarith
  then show h: "concat (map holding (threads s)) = []" by (simp only: length_0_conv)
  from held h have sub: "mset (acked s) \<subseteq># mset cands" using d by simp
  show a: "mset (acked s) = mset cands"
  proof (rule ccontr)
    assume "mset (acked s) \<noteq> mset cands"
    with sub have "mset (acked s) \<subset># mset cands" by (simp add: subset_mset.less_le)
    then have "size (mset (acked s)) < size (mset cands)" by (rule mset_subset_size)
    with la show False by simp
  qed
  from h have "\<forall>t \<in> set (threads s). holding t = []" by simp
  then have "\<forall>t \<in> set (threads s). finishing t = []" by (simp add: finishing_of_holding)
  then have f: "concat (map finishing (threads s)) = []" by simp
  from res f have "mset (results s) = image_mset (subdomain_url self) (filter_mset (probe_ok w self) (mset (acked s)))"
    by (simp add: mset_filter)
  with a show "mset (results s) = mset (map (subdomain_url self) (filter (probe_ok w self) cands))"
    by (simp add: mset_filter)
  from a have "set (acked s) = set cands" by (rule mset_eq_setD)
  with aok show "\<forall>x \<in> set cands. probe_survives w self x" by simp
qed

lemma crash_never_drains:
  assumes "pool_inv w self cands s" and "x \<in> set cands" and "\<not> probe_survives w self x"
  shows "\<not> join_returns s"
  using pool_inv_drained(6)[OF assms(1)] assms(2,3) by blast

lemma sum_remaining_update:
  "i < length ts \<Longrightarrow>
     sum_list (map remaining (ts[i := t])) + remaining (ts ! i) = sum_list (map remaining ts) + remaining t"
proof (induction ts arbitrary: i)
  case Nil
  then show ?case by simp
next
  case (Cons a ts)
  show ?case
  proof (cases i)
    case 0
    then show ?thesis by simp
  next
    case (Suc j)
    with Cons.prems have "j < length ts" by simp
    from Cons.IH[OF this] Suc show ?thesis by simp
  qed
qed

lemma length_holding_update:
  "i < length ts \<Longrightarrow>
     length (concat (map holding (ts[i := t]))) + length (holding (ts ! i))
       = length (concat (map holding ts)) + length (holding t)"
  using concat_map_update[of i ts holding t]
  by (metis size_mset size_union)

lemma not_dead_update:
  "Dead \<notin> set ts \<Longrightarrow> t \<noteq> Dead \<Longrightarrow> Dead \<notin> set (ts[i := t])"
  using set_update_subset_insert[of ts i t] by auto

lemma held_in_cands:
  assumes inv: "pool_inv w self cands s" and i: "i < length (threads s)"
    and x: "x \<in> set (holding (threads s ! i))"
  shows "x \<in> set cands"
proof -
  from inv have deq: "dequeued s @ queue s = cands"
    and held: "mset (acked s) + mset (concat (map holding (threads s))) \<subseteq># mset (dequeued s)"
    by (simp_all add: pool_inv_def)
  from i x have "x \<in> set (concat (map holding (threads s)))" by auto
  then have "x \<in># mset (acked s) + mset (concat (map holding (threads s)))" by simp
  with held have "x \<in># mset (dequeued s)" by (meson mset_subset_eqD)
  with deq show ?thesis by auto
qed

lemma live_step:
  assumes inv: "pool_inv w self cands s" and live: "live_inv s"
    and surv: "\<forall>x \<in> set cands. probe_survives w self x"
  shows "live_inv (step w self i s)"
proof (cases "i < length (threads s)")
  case False
  then show ?thesis using live by (simp add: step_def)
next
  case i: True
  from inv have deq: "dequeued s @ queue s = cands"
    and unf: "unfinished_tasks s + length (acked s) = length cands"
    and held: "mset (acked s) + mset (concat (map holding (threads s))) \<subseteq># mset (dequeued s)"
    by (simp_all add: pool_inv_def)
  from live have nd: "Dead \<notin> set (threads s)"
    and len: "length (dequeued s) = length (acked s) + length (concat (map holding (threads s)))"
    by (simp_all add: live_inv_def)
  note lu = length_holding_update[OF i]
  show ?thesis
  proof (cases "threads s ! i")
    case At_get
    then show ?thesis
      using i live nd len lu[of "At_request x" for x] not_dead_update[OF nd, of "At_request x" i for x]
      by (cases "queue s") (simp_all add: step_def live_inv_def)
  next
    case (At_request sub)
    with i have "sub \<in> set cands" using held_in_cands[OF inv i, of sub] by simp
    with surv have "probe_survives w self sub" by simp
    then show ?thesis
      using At_request i nd len lu[of "At_append sub"] lu[of "At_task_done sub"]
        not_dead_update[OF nd, of "At_append sub" i] not_dead_update[OF nd, of "At_task_done sub" i]
      by (auto simp: step_def live_inv_def probe_survives_def split: sum.splits)
  next
    case (At_append sub)
    then show ?thesis
      using i nd len lu[of "At_task_done sub"] not_dead_update[OF nd, of "At_task_done sub" i]
      by (simp add: step_def live_inv_def)
  next
    case (At_task_done sub)
    have "concat (map holding (threads s)) \<noteq> []"
      using i At_task_done by (auto simp: in_set_conv_nth intro!: bexI[of _ "threads s ! i"])
    from holding_size[OF held deq unf this] have pos: "0 < unfinished_tasks s" .
    then show ?thesis
      using At_task_done i nd len lu[of At_get] not_dead_update[OF nd, of At_get i]
      by (simp add: step_def live_inv_def)
  next
    case Dead
    with i nd show ?thesis by (metis nth_mem)
  qed
qed

lemma progress:
  assumes inv: "pool_inv w self cands s" and live: "live_inv s"
    and surv: "\<forall>x \<in> set cands. probe_survives w self x"
    and ne: "threads s \<noteq> []" and nj: "\<not> join_returns s"
  shows "\<exists>i. work_left (step w self i s) < work_left s"
proof -
  from inv have deq: "dequeued s @ queue s = cands"
    and unf: "unfinished_tasks s + length (acked s) = length cands"
    and held: "mset (acked s) + mset (concat (map holding (threads s))) \<subseteq># mset (dequeued s)"
    by (simp_all add: pool_inv_def)
  from live have nd: "Dead \<notin> set (threads s)"
    and len: "length (dequeued s) = length (acked s) + length (concat (map holding (threads s)))"
    by (simp_all add: live_inv_def)
  from nj have pos: "0 < unfinished_tasks s" by (simp add: join_returns_def)
  show ?thesis
  proof (cases "\<exists>i < length (threads s). threads s ! i \<noteq> At_get")
    case True
    then obtain i where i: "i < length (threads s)" and ng: "threads s ! i \<noteq> At_get" by blast
    note su = sum_remaining_update[OF i]
    have "work_left (step w self i s) < work_left s"
    proof (cases "threads s ! i")
      case At_get
      with ng show ?thesis by simp
    next
      case (At_request sub)
      with i have "sub \<in> set cands" using held_in_cands[OF inv i, of sub] by simp
      with surv have "probe_survives w self sub" by simp
      then show ?thesis
        using At_request i su[of "At_append sub"] su[of "At_task_done sub"]
        by (auto simp: step_def work_left_def probe_survives_def split: sum.splits)
    next
      case (At_append sub)
      then show ?thesis
        using i su[of "At_task_done sub"] by (simp add: step_def work_left_def)
    next
      case (At_task_done sub)
      then show ?thesis
        using i pos su[of At_get] by (simp add: step_def work_left_def)
    next
      case Dead
      with i nd show ?thesis by (metis nth_mem)
    qed
    then show ?thesis ..
  next
    case False
    then have allget: "\<forall>t \<in> set (threads s). t = At_get" by (auto simp: in_set_conv_nth)
    then have "\<forall>t \<in> set (threads s). holding t = []" by auto
    then have "concat (map holding (threads s)) = []" by simp
    with len have "length (dequeued s) = length (acked s)" by simp
    with unf pos deq have "queue s \<noteq> []" by auto
    then obtain x xs where q: "queue s = x # xs" by (cases "queue s") auto
    from ne have i: "0 < length (threads s)" by simp
    with allget have g: "threads s ! 0 = At_get" by simp
    have "work_left (step w self 0 s) < work_left s"
      using i g q sum_remaining_update[OF i, of "At_request x"]
      by (simp add: step_def work_left_def)
    then show ?thesis ..
  qed
qed

lemma step_threads_length: "length (threads (step w self i s)) = length (threads s)"
  by (auto simp: step_def split: worker.splits list.splits sum.splits)

lemma eventually_drained:
  assumes "pool_inv w self cands s" and "live_inv s"
    and "\<forall>x \<in> set cands. probe_survives w self x" and "threads s \<noteq> []"
  shows "\<exists>ext. join_returns (run w self ext s)"
  using assms
proof (induction "work_left s" arbitrary: s rule: less_induct)
  case less
  show ?case
  proof (cases "join_returns s")
    case True
    then have "join_returns (run w self [] s)" by simp
    then show ?thesis ..
  next
    case False
    from progress[OF less.prems(1,2,3,4) False]
    obtain i where dec: "work_left (step w self i s) < work_left s" ..
    have "threads (step w self i s) \<noteq> []"
      using less.prems(4) step_threads_length[of w self i s] by (metis length_0_conv)
    from less.hyps[OF dec pool_inv_step[OF less.prems(1)] live_step[OF less.prems(1,2,3)] less.prems(3) this]
    obtain ext where "join_returns (run w self ext (step w self i s))" ..
    then have "join_returns (run w self (i # ext) s)" by simp
    then show ?thesis ..
  qed
qed

lemma live_inv_start: "live_inv (start_scan n lines)"
  by (simp add: live_inv_def start_scan_def)

lemma live_inv_run:
  assumes "\<forall>x \<in> set cands. probe_survives w self x"
  shows "pool_inv w self cands s \<Longrightarrow> live_inv s \<Longrightarrow> live_inv (run w self sched s)"
  using assms
  by (induction sched arbitrary: s) (simp_all add: pool_inv_step live_step)

lemma run_threads_length: "length (threads (run w self sched s)) = length (threads s)"
  by (induction sched arbitrary: s) (simp_all add: step_threads_length)

lemma scan_can_finish:
  assumes "\<forall>x \<in> set (map strip lines). probe_survives w self x" and "0 < n"
  shows "\<exists>ext. join_returns (run w self (sched @ ext) (start_scan n lines))"
proof -
  let ?s = "run w self sched (start_scan n lines)"
  have "length (threads ?s) = n" by (simp add: run_threads_length start_scan_def)
  with assms(2) have "threads ?s \<noteq> []" by auto
  from eventually_drained[OF pool_inv_run[OF pool_inv_start] live_inv_run[OF assms(1) pool_inv_start live_inv_start] assms(1) this]
  show ?thesis by (simp add: run_append)
qed

section \<open>The claims\<close>

text \<open>
  C1. A worker marks every item it takes as done (\<^verbatim>\<open>task_done\<close>) however its probe ends, so
  that a failing worker cannot keep \<^verbatim>\<open>q.join()\<close> waiting for ever. The program does not do
  this: \<^verbatim>\<open>scan\<close> catches \<^verbatim>\<open>requests.ConnectionError\<close> only, and \<^verbatim>\<open>task_done\<close> is not in a
  \<^verbatim>\<open>finally\<close>. With a wordlist of one empty line the probed URL is
  \<^verbatim>\<open>http://.example.com\<close>, the probe raises \<^verbatim>\<open>InvalidURL\<close>, the thread that took the item
  dies with the item still counted as unfinished and never marked done, and under no
  schedule does the call return.
\<close>

theorem worker_crash_leaves_item_unfinished:
  "threads (run invalid_label_world example_scanner [0, 0] (start_scan worker_count blank_line)) ! 0
     = Dead
   \<and> unfinished_tasks
       (run invalid_label_world example_scanner [0, 0] (start_scan worker_count blank_line)) = 1
   \<and> acked (run invalid_label_world example_scanner [0, 0] (start_scan worker_count blank_line))
       = []
   \<and> scan_subdomains invalid_label_world example_scanner blank_line sched = None"
proof -
  have crash: "threads (run invalid_label_world example_scanner [0, 0]
                   (start_scan worker_count blank_line)) ! 0 = Dead"
    by code_simp
  have count: "unfinished_tasks (run invalid_label_world example_scanner [0, 0]
                   (start_scan worker_count blank_line)) = 1"
    by code_simp
  have none: "acked (run invalid_label_world example_scanner [0, 0]
                   (start_scan worker_count blank_line)) = []"
    by code_simp
  have item: "[] \<in> set (map strip blank_line)"
    by code_simp
  have dies: "\<not> probe_survives invalid_label_world example_scanner []"
    by code_simp
  have "\<not> join_returns
           (run invalid_label_world example_scanner sched (start_scan worker_count blank_line))"
    using pool_inv_run[OF pool_inv_start] item dies by (rule crash_never_drains)
  then have "scan_subdomains invalid_label_world example_scanner blank_line sched = None"
    by (simp add: scan_subdomains_def)
  with crash count none show ?thesis by blast
qed

text \<open>
  C2. Whatever the wordlist, the number of workers and the order in which the workers act:
  in a state in which \<^verbatim>\<open>q.join()\<close> returns, the queue is empty, every line of the wordlist
  has been taken from the queue (in the order of the file), the items marked done are
  exactly those items, as many \<^verbatim>\<open>get\<close> and \<^verbatim>\<open>task_done\<close> calls have happened as the wordlist
  has lines, and no thread still holds an item. So the join cannot return earlier.
\<close>

theorem join_returns_only_when_drained:
  assumes "join_returns (run w self sched (start_scan n lines))"
  shows "queue (run w self sched (start_scan n lines)) = []
     \<and> dequeued (run w self sched (start_scan n lines)) = map strip lines
     \<and> mset (acked (run w self sched (start_scan n lines))) = mset (map strip lines)
     \<and> length (dequeued (run w self sched (start_scan n lines))) = length lines
     \<and> length (acked (run w self sched (start_scan n lines))) = length lines
     \<and> concat (map holding (threads (run w self sched (start_scan n lines)))) = []"
proof -
  let ?s = "run w self sched (start_scan n lines)"
  have inv: "pool_inv w self (map strip lines) ?s"
    by (rule pool_inv_run[OF pool_inv_start])
  note d = pool_inv_drained[OF inv assms]
  from d(3) have "size (mset (acked ?s)) = size (mset (map strip lines))" by simp
  then have "length (acked ?s) = length lines" by simp
  moreover from d(2) have "length (dequeued ?s) = length lines" by simp
  ultimately show ?thesis using d(1,2,3,4) by simp
qed

theorem join_returns_only_when_drained_witness:
  "join_returns (run www_world example_scanner three_threads_schedule
       (start_scan worker_count three_lines))
   \<and> queue (run www_world example_scanner three_threads_schedule
       (start_scan worker_count three_lines)) = []
   \<and> dequeued (run www_world example_scanner three_threads_schedule
       (start_scan worker_count three_lines)) = [''www'', ''mail'', ''doesnotexist12345'']
   \<and> length (acked (run www_world example_scanner three_threads_schedule
       (start_scan worker_count three_lines))) = 3"
proof -
  have j: "join_returns (run www_world example_scanner three_threads_schedule
       (start_scan worker_count three_lines))"
    by code_simp
  have l: "map strip three_lines = [''www'', ''mail'', ''doesnotexist12345'']"
    by code_simp
  have n: "length three_lines = 3"
    by code_simp
  from join_returns_only_when_drained[OF j] j l n show ?thesis by simp
qed

text \<open>
  C3. Every connection attempt of a probe worker has a bounded timeout. The program does
  not do this: the worker calls \<^verbatim>\<open>requests.get(url)\<close> without a timeout, which waits without
  limit, while the directory scan of the same class passes \<^verbatim>\<open>timeout=5\<close>.
\<close>

theorem subdomain_probe_has_no_timeout:
  "req_timeout (subdomain_request self sub) = None
   \<and> req_timeout (directory_request self) = Some 5"
  by (simp add: subdomain_request_def directory_request_def)




text \<open>
  C5. The worker probes \<^verbatim>\<open>"http://" + s + "." + h\<close>, where \<^verbatim>\<open>h\<close> is the target without its
  scheme. When the subdomain scan returns, its result holds, up to the order of the
  entries, exactly these URLs for the candidates whose probe returned: one entry for each
  success and none for a connection failure. And when every probe returns or fails with
  \<^verbatim>\<open>ConnectionError\<close>, every schedule can be continued to one under which the scan returns.
\<close>

theorem subdomain_scan_results:
  "req_url (subdomain_request self s) = ''http://'' @ s @ ''.'' @ self_Target self
   \<and> (CHR '':'' \<notin> set h \<longrightarrow>
        self_Target (WebScanner (''http://'' @ h) wl) = h
        \<and> self_Target (WebScanner (''https://'' @ h) wl) = h)
   \<and> (scan_subdomains w self lines sched = Some rs \<longrightarrow>
        mset rs = mset (map (\<lambda>c. ''http://'' @ c @ ''.'' @ self_Target self)
                        (filter (probe_ok w self) (map strip lines))))
   \<and> (list_all (probe_survives w self) (map strip lines) \<longrightarrow>
        (\<exists>ext. scan_subdomains w self lines (sched @ ext) \<noteq> None))"
proof -
  have url: "req_url (subdomain_request self s) = ''http://'' @ s @ ''.'' @ self_Target self"
    by (simp add: subdomain_request_def subdomain_url_def)
  have host: "CHR '':'' \<notin> set h \<longrightarrow>
        self_Target (WebScanner (''http://'' @ h) wl) = h
        \<and> self_Target (WebScanner (''https://'' @ h) wl) = h"
    using strip_protocol_http[of h] strip_protocol_https[of h] by (simp add: WebScanner_def)
  have res: "scan_subdomains w self lines sched = Some rs \<longrightarrow>
        mset rs = mset (map (\<lambda>c. ''http://'' @ c @ ''.'' @ self_Target self)
                        (filter (probe_ok w self) (map strip lines)))"
  proof
    assume a: "scan_subdomains w self lines sched = Some rs"
    let ?s = "run w self sched (start_scan worker_count lines)"
    from a have j: "join_returns ?s" and r: "rs = results ?s"
      by (auto simp: scan_subdomains_def Let_def split: if_splits)
    have "subdomain_url self = (\<lambda>c. ''http://'' @ c @ ''.'' @ self_Target self)"
      by (rule ext) (simp add: subdomain_url_def)
    with pool_inv_drained(5)[OF pool_inv_run[OF pool_inv_start] j] r
    show "mset rs = mset (map (\<lambda>c. ''http://'' @ c @ ''.'' @ self_Target self)
                          (filter (probe_ok w self) (map strip lines)))"
      by simp
  qed
  have fin: "list_all (probe_survives w self) (map strip lines) \<longrightarrow>
        (\<exists>ext. scan_subdomains w self lines (sched @ ext) \<noteq> None)"
  proof
    assume "list_all (probe_survives w self) (map strip lines)"
    then have "\<forall>x \<in> set (map strip lines). probe_survives w self x"
      by (auto simp: list_all_iff)
    moreover have "0 < worker_count"
      by (simp add: worker_count_def)
    ultimately obtain ext
      where "join_returns (run w self (sched @ ext) (start_scan worker_count lines))"
      using scan_can_finish by blast
    then have "scan_subdomains w self lines (sched @ ext) \<noteq> None"
      by (simp add: scan_subdomains_def)
    then show "\<exists>ext. scan_subdomains w self lines (sched @ ext) \<noteq> None" ..
  qed
  from url host res fin show ?thesis by blast
qed

theorem subdomain_scan_results_witness:
  "CHR '':'' \<notin> set ''example.com''
   \<and> self_Target (WebScanner (''http://'' @ ''example.com'') ''subdomains.txt'') = ''example.com''
   \<and> scan_subdomains www_world example_scanner three_lines three_threads_schedule
       = Some [''http://www.example.com'']
   \<and> mset [''http://www.example.com'']
       = mset (map (\<lambda>c. ''http://'' @ c @ ''.'' @ self_Target example_scanner)
                (filter (probe_ok www_world example_scanner) (map strip three_lines)))
   \<and> list_all (probe_survives www_world example_scanner) (map strip three_lines)
   \<and> (\<exists>ext. scan_subdomains www_world example_scanner three_lines ([0, 1] @ ext) \<noteq> None)"
proof -
  note t = subdomain_scan_results[of example_scanner _ "''example.com''" "''subdomains.txt''"
             www_world three_lines]
  have c: "CHR '':'' \<notin> set ''example.com''"
    by simp
  have r: "scan_subdomains www_world example_scanner three_lines three_threads_schedule
       = Some [''http://www.example.com'']"
    by code_simp
  have a: "list_all (probe_survives www_world example_scanner) (map strip three_lines)"
    by code_simp
  from t[of _ three_threads_schedule "[''http://www.example.com'']"] r
  have m: "mset [''http://www.example.com'']
       = mset (map (\<lambda>c. ''http://'' @ c @ ''.'' @ self_Target example_scanner)
                (filter (probe_ok www_world example_scanner) (map strip three_lines)))"
    by blast
  from t[of _ "[0, 1]"] a
  have e: "\<exists>ext. scan_subdomains www_world example_scanner three_lines ([0, 1] @ ext) \<noteq> None"
    by blast
  from t[of "[]" "[]"] c
  have h: "self_Target (WebScanner (''http://'' @ ''example.com'') ''subdomains.txt'')
             = ''example.com''"
    by blast
  from c h r m a e show ?thesis by blast
qed

text \<open>
  C6. A target that matches the pattern leaves validation with a scheme: \<^verbatim>\<open>https://\<close> is
  kept, otherwise \<^verbatim>\<open>http://\<close> is put in front. The program does not do this for a host
  name that begins with the letters \<^verbatim>\<open>http\<close>: it tests \<^verbatim>\<open>target.startswith("http")\<close>, not
  the presence of a scheme, so \<^verbatim>\<open>httpbin.org\<close> matches the pattern and is handed to the
  modes as it is, while \<^verbatim>\<open>example.com\<close> becomes \<^verbatim>\<open>http://example.com\<close>.
\<close>

theorem target_httpbin_gets_no_scheme:
  "pattern_match ''httpbin.org'' = Some ''httpbin.org''
   \<and> validate_target ''httpbin.org'' = Inr ''httpbin.org''
   \<and> validate_target ''example.com'' = Inr ''http://example.com''
   \<and> validate_target ''https://example.com'' = Inr ''https://example.com''"
  by code_simp

text \<open>
  C7. A target that is not in the language of the host name pattern fails validation:
  \<^verbatim>\<open>main\<close> prints a diagnostic and starts no mode. The program does this for
  \<^verbatim>\<open>not a domain\<close> and for \<^verbatim>\<open>http://\<close>, but not for a host name followed by a newline:
  the pattern ends with \<^verbatim>\<open>$\<close>, which in Python also matches before a newline that ends the
  string. So \<^verbatim>\<open>example.com\<close> with a line feed after it, which is not in the language, passes validation and
  a scan of \<^verbatim>\<open>http://example.com\<close> is started. These are the only strings outside the
  language for which a mode runs.
\<close>

theorem trailing_newline_target_is_accepted:
  "\<not> in_lang target_pattern (''example.com'' @ [CHR 0x0A])
   \<and> validate_target (''example.com'' @ [CHR 0x0A]) = Inr ''http://example.com''
   \<and> main (all_flags (''example.com'' @ [CHR 0x0A])) = [Run Basic_Info ''http://example.com'']
   \<and> main (all_flags ''not a domain'') = [Print ''Invalid URL. Please enter a valid URL.'']
   \<and> main (all_flags ''http://'') = [Print ''Invalid URL. Please enter a valid URL.'']
   \<and> (in_lang target_pattern (target a)
        \<or> (target a \<noteq> [] \<and> last (target a) = CHR 0x0A
            \<and> in_lang target_pattern (butlast (target a)))
        \<or> modes_run (main a) = [])"
proof -
  have out: "\<not> in_lang target_pattern (''example.com'' @ [CHR 0x0A])"
    by code_simp
  have val: "validate_target (''example.com'' @ [CHR 0x0A]) = Inr ''http://example.com''"
    by code_simp
  have runs: "main (all_flags (''example.com'' @ [CHR 0x0A]))
                = [Run Basic_Info ''http://example.com'']"
    by code_simp
  have bad1: "main (all_flags ''not a domain'') = [Print ''Invalid URL. Please enter a valid URL.'']"
    by code_simp
  have bad2: "main (all_flags ''http://'') = [Print ''Invalid URL. Please enter a valid URL.'']"
    by code_simp
  have rest: "in_lang target_pattern (target a)
        \<or> (target a \<noteq> [] \<and> last (target a) = CHR 0x0A
            \<and> in_lang target_pattern (butlast (target a)))
        \<or> modes_run (main a) = []"
    by (simp add: main_def validate_target_def pattern_match_def)
  from out val runs bad1 bad2 rest show ?thesis by blast
qed

text \<open>
  C8. When the GET fails with a transport error, the directory scan returns an empty
  result, prints a diagnostic and raises nothing to its caller. The program does this on a
  new scanner when the error is a \<^verbatim>\<open>RequestException\<close>, and misses two cases. A transport
  error that the requests library does not wrap, such as the \<^verbatim>\<open>LocationParseError\<close> for a
  label of 64 letters in a target that passes validation, is not caught by
  \<^verbatim>\<open>except requests.exceptions.RequestException\<close> and leaves \<^verbatim>\<open>scan_directories\<close> as an
  exception. And the method never empties \<^verbatim>\<open>self.results\<close>, as the subdomain scan of the
  same class does when it starts, so on a scanner that has found a directory before a
  failing GET returns that entry instead of an empty result.
\<close>

theorem transport_error_raised_or_stale:
  "validate_target long_label = Inr (''http://'' @ long_label)
   \<and> returned (scan_directories long_label_world
         (WebScanner (''http://'' @ long_label) ''subdomains.txt''))
       = Inl (OtherException ''Failed to parse: label empty or too long'')
   \<and> returned (scan_directories down_world example_scanner) = Inr []
   \<and> stdout (scan_directories down_world example_scanner)
       = [''Performing directory scan on http://example.com...'' @ [CHR 0x0A],
          ''[!] Error accessing http://example.com: Connection refused'']
   \<and> returned (scan_directories down_world
         (self_after (scan_directories (page_world [Some ''/a/'']) example_scanner)))
       = Inr [''http://example.com/a/'']
   \<and> results (start_scan n lines) = []"
proof -
  have v: "validate_target long_label = Inr (''http://'' @ long_label)"
    by code_simp
  have e: "returned (scan_directories long_label_world
         (WebScanner (''http://'' @ long_label) ''subdomains.txt''))
       = Inl (OtherException ''Failed to parse: label empty or too long'')"
    by (simp add: scan_directories_def fetch_def long_label_world_def)
  have r: "returned (scan_directories down_world example_scanner) = Inr []"
    by code_simp
  have d: "stdout (scan_directories down_world example_scanner)
       = [''Performing directory scan on http://example.com...'' @ [CHR 0x0A],
          ''[!] Error accessing http://example.com: Connection refused'']"
    by code_simp
  have o: "returned (scan_directories down_world
         (self_after (scan_directories (page_world [Some ''/a/'']) example_scanner)))
       = Inr [''http://example.com/a/'']"
    by code_simp
  have c: "results (start_scan n lines) = []"
    by (simp add: start_scan_def)
  from v e r d o c show ?thesis by blast
qed

text \<open>
  C9. The results of the directory scan accumulate on a scanner: when two calls on the same
  scanner both return, the list the first call returned is a prefix of the list the second
  call returns, because the results field is never emptied between them. Scanning the same
  page twice therefore reports its directory twice.
\<close>

theorem directory_results_accumulate:
  assumes "returned (scan_directories w1 self) = Inr r1"
    and "returned (scan_directories w2 (self_after (scan_directories w1 self))) = Inr r2"
  shows "prefix r1 r2 \<and> set r1 \<subseteq> set r2
     \<and> returned (scan_directories (page_world [Some ''/a/''])
          (self_after (scan_directories (page_world [Some ''/a/'']) example_scanner)))
        = Inr [''http://example.com/a/'', ''http://example.com/a/'']"
proof -
  from scan_directories_returned[OF assms(1)]
  have "self_results (self_after (scan_directories w1 self)) = r1" by simp
  with scan_directories_returned[OF assms(2)] have p: "prefix r1 r2" by simp
  then have s: "set r1 \<subseteq> set r2" by (rule set_mono_prefix)
  have "returned (scan_directories (page_world [Some ''/a/''])
          (self_after (scan_directories (page_world [Some ''/a/'']) example_scanner)))
        = Inr [''http://example.com/a/'', ''http://example.com/a/'']"
    by code_simp
  with p s show ?thesis by simp
qed

theorem directory_results_accumulate_witness:
  "returned (scan_directories (page_world fixture) example_scanner)
     = Inr [''http://example.com/a/'', ''http://other.example/c/'']
   \<and> returned (scan_directories down_world
        (self_after (scan_directories (page_world fixture) example_scanner)))
     = Inr [''http://example.com/a/'', ''http://other.example/c/'']
   \<and> prefix [''http://example.com/a/'', ''http://other.example/c/'']
        [''http://example.com/a/'', ''http://other.example/c/'']"
proof -
  have a: "returned (scan_directories (page_world fixture) example_scanner)
     = Inr [''http://example.com/a/'', ''http://other.example/c/'']"
    by code_simp
  have b: "returned (scan_directories down_world
        (self_after (scan_directories (page_world fixture) example_scanner)))
     = Inr [''http://example.com/a/'', ''http://other.example/c/'']"
    by code_simp
  from directory_results_accumulate[OF a b] a b show ?thesis by blast
qed

text \<open>
  C10. Once the target has passed validation, the mode that runs is the first of
  basic-info, port-scan, dir-scan, sub-scan, tech-scan whose flag is set. So at most one
  mode runs, exactly one when some flag is set, and none when no flag is set.
\<close>

theorem dispatch_runs_first_requested_mode:
  "dispatch a t = map (\<lambda>m. Run m t) (take 1 (filter (requested a) priority))
   \<and> length (modes_run (dispatch a t)) \<le> 1
   \<and> (basic_info a \<or> port_scan a \<or> dir_scan a \<or> sub_scan a \<or> tech_scan a)
       = (length (modes_run (dispatch a t)) = 1)
   \<and> modes_run (main a) =
       (case validate_target (target a) of
          Inl msg \<Rightarrow> []
        | Inr t \<Rightarrow> take 1 (filter (requested a) priority))"
  by (simp add: dispatch_def priority_def requested_def main_def split: sum.splits)

end
